theory Spec2Isabelle
  imports Main "HOL-Library.Sublist"
begin

section \<open>Values handled by package parse\<close>

text \<open>
  The Go code passes decoded markup around as \<^verbatim>\<open>interface{}\<close>. The dynamic values
  that the decoding pipeline puts behind that interface are \<^verbatim>\<open>nil\<close>, \<^verbatim>\<open>bool\<close>,
  numbers, \<^verbatim>\<open>string\<close>, \<^verbatim>\<open>[]interface{}\<close> and string-keyed maps. Numbers are never
  inspected by the package, only compared with \<^verbatim>\<open>==\<close>, so their carrier is the type
  parameter \<open>'n\<close>. A Go map is unordered and holds each key once; it is written as an
  association list that is only ever read through \<^const>\<open>map_of\<close>.
\<close>

datatype 'n iface =
    VNil
  | VBool bool
  | VNumber 'n
  | VString string
  | VSlice "'n iface list"
  | VMap "(string \<times> 'n iface) list"

text \<open>
  A \<^verbatim>\<open>map[string]interface{}\<close> variable is either the nil map or a map object:
  \<open>None\<close> is the nil map.
\<close>

type_synonym 'n document = "(string \<times> 'n iface) list option"

text \<open>Go errors built by \<^verbatim>\<open>fmt.Errorf\<close> are their message.\<close>

type_synonym error = string

section \<open>The registered tags\<close>

definition tags :: "string list" where
  "tags = [''And'', ''Base64'', ''Cidr'', ''Equals'', ''FindInMap'', ''GetAZs'', ''GetAtt'',
           ''If'', ''ImportValue'', ''Join'', ''Not'', ''Or'', ''Ref'', ''Select'', ''Split'',
           ''Sub'', ''Transform'']"

section \<open>transformGetAtt\<close>

text \<open>
  \<^verbatim>\<open>strings.SplitN(s, sep, n)\<close> of the Go standard library for a one-character
  separator: \<open>n = 0\<close> gives no substrings; otherwise at most \<open>n\<close> substrings, the last one
  being the unsplit remainder. (Negative counts are not used by the package.)
\<close>

fun strings_SplitN :: "string \<Rightarrow> char \<Rightarrow> nat \<Rightarrow> string list" where
  "strings_SplitN s sep 0 = []"
| "strings_SplitN s sep (Suc 0) = [s]"
| "strings_SplitN s sep (Suc (Suc n)) =
     (if sep \<in> set s
      then takeWhile (\<lambda>c. c \<noteq> sep) s
             # strings_SplitN (tl (dropWhile (\<lambda>c. c \<noteq> sep) s)) sep (Suc n)
      else [s])"

text \<open>
  \<^verbatim>\<open>out := make([]interface{}, 2); for i, v := range parts { out[i] = v }\<close>.
  An index outside \<open>out\<close> would panic in Go; \<open>SplitN\<close> with count 2 never produces one
  (lemma \<open>length_strings_SplitN\<close> below), so the update is always in range.
\<close>

definition fill_parts :: "string list \<Rightarrow> 'n iface list" where
  "fill_parts parts =
     fold (\<lambda>(i, v) out. out[i := VString v]) (enumerate 0 parts) (replicate 2 VNil)"

fun transformGetAtt :: "'n iface \<Rightarrow> 'n iface" where
  "transformGetAtt (VString s) = VSlice (fill_parts (strings_SplitN s (CHR ''.'') 2))"
| "transformGetAtt v = v"

section \<open>UnmarshalYAMLTag\<close>

text \<open>
  The handler works on \<^verbatim>\<open>reflect.Value\<close>s. The value it is given is a valid one, holding
  the decoded payload of the tagged node; the model takes that payload. The handler
  itself builds two more: \<^verbatim>\<open>reflect.ValueOf(x)\<close>, which is the zero \<^verbatim>\<open>Value\<close> when \<^verbatim>\<open>x\<close> is
  nil, and the key. \<^verbatim>\<open>SetMapIndex(key, elem)\<close> stores \<^verbatim>\<open>elem\<close> under \<^verbatim>\<open>key\<close>, and deletes the
  key from the map when \<^verbatim>\<open>elem\<close> is the zero \<^verbatim>\<open>Value\<close>.
\<close>

datatype 'n reflect_Value = ZeroValue | Valid "'n iface"

fun reflect_ValueOf :: "'n iface \<Rightarrow> 'n reflect_Value" where
  "reflect_ValueOf VNil = ZeroValue"
| "reflect_ValueOf v = Valid v"

fun SetMapIndex ::
  "(string \<times> 'n iface) list \<Rightarrow> string \<Rightarrow> 'n reflect_Value \<Rightarrow> (string \<times> 'n iface) list" where
  "SetMapIndex m key ZeroValue = filter (\<lambda>(k, v). k \<noteq> key) m"
| "SetMapIndex m key (Valid elem) = (key, elem) # filter (\<lambda>(k, v). k \<noteq> key) m"

text \<open>
  The result is a fresh \<^verbatim>\<open>map[interface{}]interface{}\<close> after
  \<^verbatim>\<open>output.SetMapIndex(key, value)\<close>. For the key \<open>Fn::GetAtt\<close> the value has been replaced
  by \<^verbatim>\<open>reflect.ValueOf(transformGetAtt(value.Interface()))\<close> before.
\<close>

definition UnmarshalYAMLTag :: "string \<Rightarrow> 'n iface \<Rightarrow> 'n iface" where
  "UnmarshalYAMLTag tag val =
     (let prefix = (if tag = ''Ref'' \<or> tag = ''Condition'' then [] else ''Fn::'');
          tag' = prefix @ tag;
          val' = (if tag' = ''Fn::GetAtt'' then reflect_ValueOf (transformGetAtt val)
                  else Valid val)
      in VMap (SetMapIndex [] tag' val'))"

section \<open>Read, ReadFile, ReadString\<close>

text \<open>
  An \<^verbatim>\<open>io.Reader\<close> is the sequence of outcomes of its successive \<^verbatim>\<open>Read\<close> calls:
  chunks of data, ended by end-of-file or by an error. \<^verbatim>\<open>ioutil.ReadAll\<close> collects the
  chunks up to end-of-file and stops at the first error.
\<close>

datatype reader = EOF | Data string reader | ReadError error

fun ioutil_ReadAll :: "reader \<Rightarrow> error + string" where
  "ioutil_ReadAll EOF = Inr []"
| "ioutil_ReadAll (Data chunk r) =
     (case ioutil_ReadAll r of Inl err \<Rightarrow> Inl err | Inr rest \<Rightarrow> Inr (chunk @ rest))"
| "ioutil_ReadAll (ReadError err) = Inl err"

text \<open>
  The file system gives, for a name, the contents of the file or the operation that
  failed and the cause reported by the operating system. \<^verbatim>\<open>ioutil.ReadFile\<close> reports
  a failure as a \<^verbatim>\<open>*PathError\<close>, whose message is
  \<^verbatim>\<open>Op + " " + Path + ": " + Err.Error()\<close>.
\<close>

datatype file_entry = Contents string | Failure string string

type_synonym filesystem = "string \<Rightarrow> file_entry"

definition ENOENT :: string where
  "ENOENT = ''no such file or directory''"

definition ioutil_ReadFile :: "filesystem \<Rightarrow> string \<Rightarrow> error + string" where
  "ioutil_ReadFile fs fileName =
     (case fs fileName of
        Contents data \<Rightarrow> Inr data
      | Failure opn cause \<Rightarrow> Inl (opn @ '' '' @ fileName @ '': '' @ cause))"

text \<open>
  \<^verbatim>\<open>json.Unmarshal(parsed, &output)\<close> with \<^verbatim>\<open>output\<close> a nil
  \<^verbatim>\<open>map[string]interface{}\<close>, as documented by \<^verbatim>\<open>encoding/json\<close>: the JSON value
  \<^verbatim>\<open>null\<close> leaves the map nil and is no error, an object becomes a map, and any other
  JSON value is an \<^verbatim>\<open>UnmarshalTypeError\<close>. The JSON text is written here as the value
  it denotes (the members of an object have pairwise distinct keys).
\<close>

fun json_kind :: "'n iface \<Rightarrow> string" where
  "json_kind VNil = ''null''"
| "json_kind (VBool b) = ''bool''"
| "json_kind (VNumber n) = ''number''"
| "json_kind (VString s) = ''string''"
| "json_kind (VSlice xs) = ''array''"
| "json_kind (VMap m) = ''object''"

fun json_Unmarshal :: "'n iface \<Rightarrow> error + 'n document" where
  "json_Unmarshal VNil = Inr None"
| "json_Unmarshal (VMap m) = Inr (Some m)"
| "json_Unmarshal v =
     Inl (''json: cannot unmarshal '' @ json_kind v
          @ '' into Go value of type map[string]interface {}'')"

text \<open>
  \<^verbatim>\<open>yamlwrapper.YAMLToJSON\<close> is the external markup converter (with the tag handlers
  registered in it). It is the parameter \<open>YAMLToJSON\<close> of the three read operations: for
  an input text it gives an error or the JSON document it emits.
\<close>

type_synonym 'n converter = "string \<Rightarrow> error + 'n iface"

definition ReadString :: "'n converter \<Rightarrow> string \<Rightarrow> error + 'n document" where
  "ReadString YAMLToJSON input =
     (case YAMLToJSON input of
        Inl err \<Rightarrow> Inl (''Invalid YAML: '' @ err)
      | Inr parsed \<Rightarrow>
          (case json_Unmarshal parsed of
             Inl err \<Rightarrow> Inl (''Invalid YAML: '' @ err)
           | Inr output \<Rightarrow> Inr output))"

definition Read :: "'n converter \<Rightarrow> reader \<Rightarrow> error + 'n document" where
  "Read YAMLToJSON r =
     (case ioutil_ReadAll r of
        Inl err \<Rightarrow> Inl (''Unable to read input: '' @ err)
      | Inr data \<Rightarrow> ReadString YAMLToJSON data)"

definition ReadFile :: "'n converter \<Rightarrow> filesystem \<Rightarrow> string \<Rightarrow> error + 'n document" where
  "ReadFile YAMLToJSON fs fileName =
     (case ioutil_ReadFile fs fileName of
        Inl err \<Rightarrow> Inl (''Unable to read file: '' @ err)
      | Inr source \<Rightarrow> ReadString YAMLToJSON source)"

section \<open>Facts about splitting\<close>

lemma length_strings_SplitN: "length (strings_SplitN s sep n) \<le> n"
  by (induction s sep n rule: strings_SplitN.induct) auto

lemma strings_SplitN_2_no_sep:
  "sep \<notin> set s \<Longrightarrow> strings_SplitN s sep 2 = [s]"
  by (simp add: numeral_2_eq_2)

lemma strings_SplitN_2_first_sep:
  "sep \<notin> set p \<Longrightarrow> strings_SplitN (p @ sep # q) sep 2 = [p, q]"
  by (simp add: numeral_2_eq_2 takeWhile_append dropWhile_append)

lemma fill_parts_one: "fill_parts [a] = [VString a, VNil]"
  by (simp add: fill_parts_def numeral_2_eq_2)

lemma fill_parts_two: "fill_parts [a, b] = [VString a, VString b]"
  by (simp add: fill_parts_def numeral_2_eq_2)

lemma transformGetAtt_VString_cases:
  obtains "CHR ''.'' \<notin> set s" "transformGetAtt (VString s :: 'n iface) = VSlice [VString s, VNil]"
  | p q where "s = p @ CHR ''.'' # q" "CHR ''.'' \<notin> set p"
      "transformGetAtt (VString s :: 'n iface) = VSlice [VString p, VString q]"
proof (cases "CHR ''.'' \<in> set s")
  case True
  then obtain p q where "s = p @ CHR ''.'' # q" "CHR ''.'' \<notin> set p"
    by (meson split_list_first)
  then show ?thesis
    using that(2) by (simp add: strings_SplitN_2_first_sep fill_parts_two)
next
  case False
  then show ?thesis
    using that(1) by (simp add: strings_SplitN_2_no_sep fill_parts_one)
qed

section \<open>VerifyOutput\<close>

subsection \<open>The transformer\<close>

text \<open>
  The function handed to \<^verbatim>\<open>cmp.Transformer\<close>:
  \<^verbatim>\<open>for k, v := range in { if k == "Fn::GetAtt" { in[k] = transformGetAtt(v) } }; return in\<close>.
  It writes into the map it is given and returns that same map; the result below is
  that map after the loop.
\<close>

definition trans_GetAtt :: "(string \<times> 'n iface) list \<Rightarrow> (string \<times> 'n iface) list" where
  "trans_GetAtt m = map (\<lambda>(k, v). (k, if k = ''Fn::GetAtt'' then transformGetAtt v else v)) m"

subsection \<open>The comparison made by go-cmp\<close>

text \<open>
  \<^verbatim>\<open>cmp.Diff\<close> belongs to the library go-cmp. Its comparison is written here from the
  rules the library documents for \<^verbatim>\<open>cmp.Equal\<close>, for the values of type \<^typ>\<open>'n iface\<close>:
  \<^item> options are tried at every node of the two values, so the transformer, whose
    argument type is \<^verbatim>\<open>map[string]interface{}\<close>, is applied wherever both values are such
    maps, at any depth, and the maps it returns are then compared entry by entry (not
    transformed a second time);
  \<^item> two maps are equal when every key of either one is a key of both and the two values
    under it are equal;
  \<^item> two slices are equal when they have the same length and equal elements at equal
    positions;
  \<^item> two interface values are equal when both are nil, or when both have the same dynamic
    type and are equal as values of that type; numbers, strings and booleans are
    compared with \<^verbatim>\<open>==\<close>.

  The recursion follows the values the transformer returns, which can be larger than
  the values it was given (a string becomes a slice of two strings); \<open>weight\<close> is the
  measure that decreases all the same.
\<close>

fun weight :: "'n iface \<Rightarrow> nat" where
  "weight (VString s) = 4"
| "weight (VSlice xs) = Suc (sum_list (map weight xs))"
| "weight (VMap m) = Suc (sum_list (map (\<lambda>(k, v). 2 * weight v + 2) m))"
| "weight v = 1"

lemma weight_transformGetAtt: "weight (transformGetAtt v) \<le> 2 * weight v + 1"
proof (cases v)
  case (VString s)
  show ?thesis
  proof (rule transformGetAtt_VString_cases [of s])
    assume "transformGetAtt (VString s :: 'a iface) = VSlice [VString s, VNil]"
    then show ?thesis unfolding VString by simp
  next
    fix p q assume "transformGetAtt (VString s :: 'a iface) = VSlice [VString p, VString q]"
    then show ?thesis unfolding VString by simp
  qed
qed simp_all

lemma weight_member: "(k, v) \<in> set m \<Longrightarrow> 2 * weight v + 2 \<le> sum_list (map (\<lambda>(k, v). 2 * weight v + 2) m)"
  by (induction m) auto

lemma weight_elem: "v \<in> set xs \<Longrightarrow> weight v \<le> sum_list (map weight xs)"
  by (induction xs) auto

text \<open>
  In proofs the key is kept folded as \<open>GetAtt_key\<close>, so that no proof step compares
  strings character by character.
\<close>

definition GetAtt_key :: string where
  "GetAtt_key = ''Fn::GetAtt''"

lemma trans_GetAtt_key:
  "trans_GetAtt m = map (\<lambda>(k, v). (k, if k = GetAtt_key then transformGetAtt v else v)) m"
  by (simp add: trans_GetAtt_def GetAtt_key_def)

lemma map_of_trans_GetAtt:
  "map_of (trans_GetAtt m) k = map_option (\<lambda>v. if k = GetAtt_key then transformGetAtt v else v) (map_of m k)"
  by (induction m) (auto simp: trans_GetAtt_key)

lemma trans_GetAtt_entry:
  "(k, vx) \<in> set (trans_GetAtt x) \<longleftrightarrow>
     (\<exists>v. (k, v) \<in> set x \<and> vx = (if k = GetAtt_key then transformGetAtt v else v))"
  by (induction x) (auto simp: trans_GetAtt_key)

lemma weight_trans_entry:
  "(k, vx) \<in> set (trans_GetAtt x) \<Longrightarrow> weight vx < weight (VMap x)"
proof -
  assume "(k, vx) \<in> set (trans_GetAtt x)"
  then obtain v where v: "(k, v) \<in> set x" "vx = (if k = GetAtt_key then transformGetAtt v else v)"
    by (auto simp: trans_GetAtt_entry)
  from v(1) have "2 * weight v + 2 \<le> sum_list (map (\<lambda>(k, v). 2 * weight v + 2) x)"
    by (rule weight_member)
  moreover have "weight vx \<le> 2 * weight v + 1"
    using v(2) weight_transformGetAtt [of v] by simp
  ultimately show ?thesis by simp
qed

function compareAny :: "'n iface \<Rightarrow> 'n iface \<Rightarrow> bool" where
  "compareAny (VMap x) (VMap y) =
     list_all (\<lambda>k. case map_of (trans_GetAtt x) k of
                      None \<Rightarrow> False
                    | Some vx \<Rightarrow> (case map_of (trans_GetAtt y) k of
                                   None \<Rightarrow> False
                                 | Some vy \<Rightarrow> compareAny vx vy))
       (remdups (map fst (trans_GetAtt x) @ map fst (trans_GetAtt y)))"
| "compareAny (VSlice xs) (VSlice ys) =
     (length xs = length ys \<and> list_all (\<lambda>(vx, vy). compareAny vx vy) (zip xs ys))"
| "compareAny VNil v = (v = VNil)"
| "compareAny (VBool a) v = (v = VBool a)"
| "compareAny (VNumber a) v = (v = VNumber a)"
| "compareAny (VString a) v = (v = VString a)"
| "compareAny (VMap x) VNil = False"
| "compareAny (VMap x) (VBool b) = False"
| "compareAny (VMap x) (VNumber b) = False"
| "compareAny (VMap x) (VString b) = False"
| "compareAny (VMap x) (VSlice b) = False"
| "compareAny (VSlice x) VNil = False"
| "compareAny (VSlice x) (VBool b) = False"
| "compareAny (VSlice x) (VNumber b) = False"
| "compareAny (VSlice x) (VString b) = False"
| "compareAny (VSlice x) (VMap b) = False"
  by pat_completeness auto

termination
proof (relation "measure (\<lambda>(x, y). weight x)")
  show "wf (measure (\<lambda>(x, y). weight x))" by simp
next
  fix x y :: "(string \<times> 'n iface) list" and k vx vy
  assume "map_of (trans_GetAtt x) k = Some vx"
  then obtain v where v: "map_of x k = Some v" "vx = (if k = GetAtt_key then transformGetAtt v else v)"
    by (auto simp: map_of_trans_GetAtt)
  then have "(k, v) \<in> set x" by (simp add: map_of_SomeD)
  then have "2 * weight v + 2 \<le> sum_list (map (\<lambda>(k, v). 2 * weight v + 2) x)" by (rule weight_member)
  moreover have "weight vx \<le> 2 * weight v + 1" using v(2) weight_transformGetAtt [of v] by simp
  ultimately show "((vx, vy), (VMap x, VMap y)) \<in> measure (\<lambda>(x, y). weight x)" by simp
next
  fix xs ys :: "'n iface list" and z vx vy
  assume "z \<in> set (zip xs ys)" "(vx, vy) = z"
  then have "vx \<in> set xs" by (auto dest: set_zip_leftD)
  then show "((vx, vy), (VSlice xs, VSlice ys)) \<in> measure (\<lambda>(x, y). weight x)"
    using weight_elem [of vx xs] by simp
qed

text \<open>
  Two things the library does while it compares are not fixed by its documentation.
  They are the fields of a \<open>go_cmp\<close> record, a parameter of everything below:
  \<^item> \<open>slice_report xs ys\<close>: the leaves reported unequal below two slices, as paths
    relative to the slices (the library pairs the elements by an edit script of its
    own choice);
  \<^item> \<open>render\<close>: the text the default reporter prints for the reported leaves.
\<close>

datatype step = MapIndex string | SliceIndex int int

type_synonym path = "step list"

record 'n go_cmp =
  slice_report :: "'n iface list \<Rightarrow> 'n iface list \<Rightarrow> path list"
  render :: "path list \<Rightarrow> string"

text \<open>
  The library checks a transformer for determinism on its first call: it calls the
  function twice and compares the two results with each other, by the comparison
  above. This transformer returns the map it was given, so the check compares that map
  with itself. Such a comparison finds every key in both maps and goes on below each;
  it reaches every map nested in the first one, and every comparison of two maps runs
  the transformer on them. \<open>self_compare v\<close> is the value \<open>v\<close> after it has been compared
  with itself.
\<close>

function self_compare :: "'n iface \<Rightarrow> 'n iface" where
  "self_compare (VMap x) = VMap (map (\<lambda>(k, vx). (k, self_compare vx)) (trans_GetAtt x))"
| "self_compare (VSlice xs) = VSlice (map self_compare xs)"
| "self_compare VNil = VNil"
| "self_compare (VBool a) = VBool a"
| "self_compare (VNumber a) = VNumber a"
| "self_compare (VString a) = VString a"
  by pat_completeness auto

termination
  by (relation "measure weight")
     (auto dest: weight_trans_entry weight_elem simp: less_Suc_eq_le)

text \<open>
  \<open>cmp_report L p x y\<close> lists the paths of the leaves that the comparison of \<open>x\<close> and
  \<open>y\<close>, reached by path \<open>p\<close>, reports as unequal: a key that only one of two maps has, two
  values of different dynamic types, two different scalars, and what \<open>slice_report\<close>
  gives below two slices.
\<close>

function cmp_report :: "'n go_cmp \<Rightarrow> path \<Rightarrow> 'n iface \<Rightarrow> 'n iface \<Rightarrow> path list" where
  "cmp_report L p (VMap x) (VMap y) =
     concat (map (\<lambda>k. case map_of (trans_GetAtt x) k of
                          None \<Rightarrow> [p @ [MapIndex k]]
                        | Some vx \<Rightarrow> (case map_of (trans_GetAtt y) k of
                                       None \<Rightarrow> [p @ [MapIndex k]]
                                     | Some vy \<Rightarrow> cmp_report L (p @ [MapIndex k]) vx vy))
                 (remdups (map fst (trans_GetAtt x) @ map fst (trans_GetAtt y))))"
| "cmp_report L p (VSlice xs) (VSlice ys) = map (\<lambda>q. p @ q) (slice_report L xs ys)"
| "cmp_report L p VNil v = (if v = VNil then [] else [p])"
| "cmp_report L p (VBool a) v = (if v = VBool a then [] else [p])"
| "cmp_report L p (VNumber a) v = (if v = VNumber a then [] else [p])"
| "cmp_report L p (VString a) v = (if v = VString a then [] else [p])"
| "cmp_report L p (VMap x) VNil = [p]"
| "cmp_report L p (VMap x) (VBool b) = [p]"
| "cmp_report L p (VMap x) (VNumber b) = [p]"
| "cmp_report L p (VMap x) (VString b) = [p]"
| "cmp_report L p (VMap x) (VSlice b) = [p]"
| "cmp_report L p (VSlice x) VNil = [p]"
| "cmp_report L p (VSlice x) (VBool b) = [p]"
| "cmp_report L p (VSlice x) (VNumber b) = [p]"
| "cmp_report L p (VSlice x) (VString b) = [p]"
| "cmp_report L p (VSlice x) (VMap b) = [p]"
  by pat_completeness auto

termination
  by (relation "measure (\<lambda>(L, p, x, y). weight x)")
     (auto dest!: map_of_SomeD dest: weight_trans_entry)

text \<open>
  At the root both values have the static type \<^verbatim>\<open>map[string]interface{}\<close>, so the
  transformer runs on them first, also on a nil map (which it returns as it is). Then a
  nil map is equal to a nil map only.
\<close>

definition cmp_Equal :: "'n document \<Rightarrow> 'n document \<Rightarrow> bool" where
  "cmp_Equal x y =
     (case x of
        None \<Rightarrow> (case y of None \<Rightarrow> True | Some my \<Rightarrow> False)
      | Some mx \<Rightarrow> (case y of None \<Rightarrow> False | Some my \<Rightarrow> compareAny (VMap mx) (VMap my)))"

definition cmp_paths :: "'n go_cmp \<Rightarrow> 'n document \<Rightarrow> 'n document \<Rightarrow> path list" where
  "cmp_paths L x y =
     (case x of
        None \<Rightarrow> (case y of None \<Rightarrow> [] | Some my \<Rightarrow> [[]])
      | Some mx \<Rightarrow> (case y of None \<Rightarrow> [[]] | Some my \<Rightarrow> cmp_report L [] (VMap mx) (VMap my)))"

text \<open>
  \<^verbatim>\<open>cmp.Diff\<close> returns the empty string when the values are equal, and the reporter's
  text otherwise.
\<close>

definition cmp_Diff :: "'n go_cmp \<Rightarrow> 'n document \<Rightarrow> 'n document \<Rightarrow> string" where
  "cmp_Diff L x y = (if cmp_Equal x y then [] else render L (cmp_paths L x y))"

text \<open>
  \<open>after_Diff x\<close> is the map \<open>x\<close> when \<^verbatim>\<open>cmp.Diff(x, y, trans)\<close> returns. The first call of
  the transformer is the one on \<open>x\<close> at the root, so the whole of \<open>x\<close> has been compared
  with itself before anything of \<open>y\<close> is looked at, and the comparison with \<open>y\<close> finds
  nothing left to rewrite in \<open>x\<close>. On the nil map the transformer's loop has no entry to
  visit.
\<close>

fun entries :: "'n iface \<Rightarrow> (string \<times> 'n iface) list" where
  "entries (VMap m) = m"
| "entries v = []"

definition after_Diff :: "'n document \<Rightarrow> 'n document" where
  "after_Diff x =
     (case x of
        None \<Rightarrow> None
      | Some mx \<Rightarrow> Some (entries (self_compare (VMap mx))))"

subsection \<open>VerifyOutput\<close>

text \<open>
  The result is the returned error (\<open>None\<close> for \<^verbatim>\<open>nil\<close>) together with the map the
  caller passed as \<open>source\<close>, as it is when the call returns. The parsed candidate is local
  to the call.
\<close>

definition VerifyOutput ::
  "'n converter \<Rightarrow> 'n go_cmp \<Rightarrow> 'n document \<Rightarrow> string \<Rightarrow> error option \<times> 'n document" where
  "VerifyOutput YAMLToJSON L source output =
     (case ReadString YAMLToJSON output of
        Inl err \<Rightarrow> (Some err, source)
      | Inr validate \<Rightarrow>
          (let diff = cmp_Diff L source validate;
               source' = after_Diff source
           in if diff \<noteq> []
              then (Some (''Semantic difference after formatting:'' @ [CHR 0x0A] @ diff), source')
              else (None, source')))"

section \<open>What the specification asks of the comparison\<close>

text \<open>
  The specification describes the check in two steps. First, in every mapping of both
  documents, the value under the key \<open>Fn::GetAtt\<close> is replaced by the canonicalizer's
  output, recursively: \<open>canon\<close>.
\<close>

fun canon :: "'n iface \<Rightarrow> 'n iface" where
  "canon (VMap m) =
     VMap (map (\<lambda>(k, v). (k, if k = ''Fn::GetAtt'' then transformGetAtt (canon v) else canon v)) m)"
| "canon (VSlice xs) = VSlice (map canon xs)"
| "canon v = v"

definition canon_entries :: "(string \<times> 'n iface) list \<Rightarrow> (string \<times> 'n iface) list" where
  "canon_entries m =
     map (\<lambda>(k, v). (k, if k = ''Fn::GetAtt'' then transformGetAtt (canon v) else canon v)) m"

definition canon_doc :: "'n document \<Rightarrow> 'n document" where
  "canon_doc d = map_option canon_entries d"

text \<open>
  Second, deep structural equality: the keys of two mappings match as sets, with equal
  values under each key; two sequences match in length and order; scalars match by value.
\<close>

lemma size_entry: "(k, v) \<in> set m \<Longrightarrow> size v < size (VMap m)"
  by (induction m) auto

lemma size_elem: "v \<in> set xs \<Longrightarrow> size v < size (VSlice xs)"
  by (induction xs) auto

function deep_equal :: "'n iface \<Rightarrow> 'n iface \<Rightarrow> bool" where
  "deep_equal (VMap a) (VMap b) =
     (set (map fst a) = set (map fst b)
      \<and> list_all (\<lambda>k. case map_of a k of
                        None \<Rightarrow> False
                      | Some va \<Rightarrow> (case map_of b k of None \<Rightarrow> False | Some vb \<Rightarrow> deep_equal va vb))
          (map fst a))"
| "deep_equal (VSlice xs) (VSlice ys) =
     (length xs = length ys \<and> list_all (\<lambda>i. deep_equal (xs ! i) (ys ! i)) [0..<length xs])"
| "deep_equal VNil v = (v = VNil)"
| "deep_equal (VBool a) v = (v = VBool a)"
| "deep_equal (VNumber a) v = (v = VNumber a)"
| "deep_equal (VString a) v = (v = VString a)"
| "deep_equal (VMap x) VNil = False"
| "deep_equal (VMap x) (VBool b) = False"
| "deep_equal (VMap x) (VNumber b) = False"
| "deep_equal (VMap x) (VString b) = False"
| "deep_equal (VMap x) (VSlice b) = False"
| "deep_equal (VSlice x) VNil = False"
| "deep_equal (VSlice x) (VBool b) = False"
| "deep_equal (VSlice x) (VNumber b) = False"
| "deep_equal (VSlice x) (VString b) = False"
| "deep_equal (VSlice x) (VMap b) = False"
  by pat_completeness auto

termination
  by (relation "measure (\<lambda>(x, y). size x)")
     (auto dest!: map_of_SomeD size_entry intro!: size_elem [simplified])

definition doc_equal :: "'n document \<Rightarrow> 'n document \<Rightarrow> bool" where
  "doc_equal x y =
     (case x of
        None \<Rightarrow> (case y of None \<Rightarrow> True | Some b \<Rightarrow> False)
      | Some a \<Rightarrow> (case y of None \<Rightarrow> False | Some b \<Rightarrow> deep_equal (VMap a) (VMap b)))"

text \<open>
  Two documents differ in the spelling of attribute getters only when they are equal
  after the first step.
\<close>

definition same_modulo_GetAtt :: "'n document \<Rightarrow> 'n document \<Rightarrow> bool" where
  "same_modulo_GetAtt x y = doc_equal (canon_doc x) (canon_doc y)"

text \<open>
  A path is a sequence of keys leading through nested mappings. Two values disagree at
  a path when both have a value there, the two values are not both mappings and are not
  equal; or when only one has a value there although both have a mapping just above.
  (Two mappings that differ disagree at a longer path.)
\<close>

fun at_path :: "'n iface \<Rightarrow> string list \<Rightarrow> 'n iface option" where
  "at_path v [] = Some v"
| "at_path (VMap m) (k # ks) = (case map_of m k of None \<Rightarrow> None | Some v \<Rightarrow> at_path v ks)"
| "at_path v (k # ks) = None"

fun is_mapping :: "'n iface \<Rightarrow> bool" where
  "is_mapping (VMap m) = True"
| "is_mapping v = False"

definition mapping_at :: "'n iface \<Rightarrow> string list \<Rightarrow> bool" where
  "mapping_at v ks = (case at_path v ks of None \<Rightarrow> False | Some w \<Rightarrow> is_mapping w)"

definition disagree_at :: "'n iface \<Rightarrow> 'n iface \<Rightarrow> string list \<Rightarrow> bool" where
  "disagree_at a b ks =
     (case at_path a ks of
        Some va \<Rightarrow>
          (case at_path b ks of
             Some vb \<Rightarrow> \<not> (is_mapping va \<and> is_mapping vb) \<and> \<not> deep_equal va vb
           | None \<Rightarrow> mapping_at b (butlast ks))
      | None \<Rightarrow>
          (case at_path b ks of
             Some vb \<Rightarrow> mapping_at a (butlast ks)
           | None \<Rightarrow> False))"

definition doc_disagree_at :: "'n document \<Rightarrow> 'n document \<Rightarrow> string list \<Rightarrow> bool" where
  "doc_disagree_at x y ks =
     (case x of
        None \<Rightarrow> (case y of None \<Rightarrow> False | Some b \<Rightarrow> ks = [])
      | Some a \<Rightarrow> (case y of None \<Rightarrow> ks = [] | Some b \<Rightarrow> disagree_at (VMap a) (VMap b) ks))"

text \<open>
  What the documentation of go-cmp does fix about the two fields: the report is empty
  exactly for equal values, and the text of a report that is not empty is not empty.
\<close>

definition go_cmp_contract :: "'n go_cmp \<Rightarrow> bool" where
  "go_cmp_contract L \<longleftrightarrow>
     (\<forall>xs ys. slice_report L xs ys = [] \<longleftrightarrow> compareAny (VSlice xs) (VSlice ys))
     \<and> (\<forall>l. l \<noteq> [] \<longrightarrow> render L l \<noteq> [])"

text \<open>A Go map holds each key once, at every depth.\<close>

fun distinct_keys :: "'n iface \<Rightarrow> bool" where
  "distinct_keys (VMap m) = (distinct (map fst m) \<and> list_all (\<lambda>(k, v). distinct_keys v) m)"
| "distinct_keys (VSlice xs) = list_all distinct_keys xs"
| "distinct_keys v = True"

definition doc_distinct_keys :: "'n document \<Rightarrow> bool" where
  "doc_distinct_keys d = (case d of None \<Rightarrow> True | Some m \<Rightarrow> distinct_keys (VMap m))"

text \<open>
  The content of an input is rejected with a cause when the converter fails on it, or
  when the converter succeeds and decoding its JSON document fails.
\<close>

definition rejected :: "'n converter \<Rightarrow> string \<Rightarrow> error \<Rightarrow> bool" where
  "rejected YAMLToJSON input cause \<longleftrightarrow>
     YAMLToJSON input = Inl cause
     \<or> (\<exists>parsed. YAMLToJSON input = Inr parsed \<and> json_Unmarshal parsed = Inl cause)"

section \<open>Example inputs\<close>

text \<open>
  A reporter that satisfies \<open>go_cmp_contract\<close>, a reference document with attribute
  getters in string form inside a nested mapping and inside a sequence, the same
  document with the getters in list form, and a document with another attribute name.
\<close>

definition example_cmp :: "nat go_cmp" where
  "example_cmp =
     \<lparr> slice_report = (\<lambda>xs ys. if compareAny (VSlice xs) (VSlice ys) then [] else [[SliceIndex 0 0]]),
       render = (\<lambda>paths. ''- x + y'') \<rparr>"

definition example_source :: "nat document" where
  "example_source =
     Some [(''Out'', VMap [(''Arn'', VMap [(''Fn::GetAtt'', VString ''Bucket.Arn'')])]),
           (''List'', VSlice [VMap [(''Fn::GetAtt'', VString ''App.Outputs.Url'')]])]"

definition example_validate :: "(string \<times> nat iface) list" where
  "example_validate =
     [(''List'', VSlice [VMap [(''Fn::GetAtt'', VSlice [VString ''App'', VString ''Outputs.Url''])]]),
      (''Out'', VMap [(''Arn'', VMap [(''Fn::GetAtt'', VSlice [VString ''Bucket'', VString ''Arn''])])])]"

definition example_changed :: "(string \<times> nat iface) list" where
  "example_changed =
     [(''List'', VSlice [VMap [(''Fn::GetAtt'', VSlice [VString ''App'', VString ''Outputs.Url''])]]),
      (''Out'', VMap [(''Arn'', VMap [(''Fn::GetAtt'', VSlice [VString ''Bucket'', VString ''Id''])])])]"

section \<open>Facts about reading\<close>

lemma ReadString_cases:
  "ReadString Y input = Inl e \<longleftrightarrow> (\<exists>cause. rejected Y input cause \<and> e = ''Invalid YAML: '' @ cause)"
  by (auto simp: ReadString_def rejected_def split: sum.splits)

lemma ReadString_rejected:
  "rejected Y input cause \<Longrightarrow> ReadString Y input = Inl (''Invalid YAML: '' @ cause)"
  by (auto simp: ReadString_def rejected_def split: sum.splits)

lemma sublist_in_message: "sublist name (pre @ name @ post)"
  by (auto simp: sublist_def)

section \<open>Facts about the comparison\<close>

lemma canon_transformGetAtt: "canon (transformGetAtt v) = transformGetAtt (canon v)"
proof (cases v)
  case (VString s)
  show ?thesis
  proof (rule transformGetAtt_VString_cases [of s])
    assume "transformGetAtt (VString s :: 'a iface) = VSlice [VString s, VNil]"
    then show ?thesis unfolding VString by simp
  next
    fix p q assume "transformGetAtt (VString s :: 'a iface) = VSlice [VString p, VString q]"
    then show ?thesis unfolding VString by simp
  qed
qed simp_all

lemma canon_VMap: "canon (VMap m) = VMap (canon_entries m)"
  by (simp add: canon_entries_def)

lemma canon_entries_key:
  "canon_entries m =
     map (\<lambda>(k, v). (k, if k = GetAtt_key then transformGetAtt (canon v) else canon v)) m"
  by (simp add: canon_entries_def GetAtt_key_def)

lemma map_of_canon_entries:
  "map_of (canon_entries m) k = map_option canon (map_of (trans_GetAtt m) k)"
  by (induction m) (auto simp: canon_entries_key trans_GetAtt_key canon_transformGetAtt)

lemma keys_trans_GetAtt: "map fst (trans_GetAtt m) = map fst m"
  by (induction m) (auto simp: trans_GetAtt_key)

lemma keys_canon_entries: "map fst (canon_entries m) = map fst m"
  by (induction m) (auto simp: canon_entries_key)

lemma map_of_None_keys: "map_of m k = None \<longleftrightarrow> k \<notin> set (map fst m)"
  by (simp add: map_of_eq_None_iff)

lemma canon_scalar_iff:
  "canon v = VNil \<longleftrightarrow> v = VNil"
  "canon v = VBool b \<longleftrightarrow> v = VBool b"
  "canon v = VNumber n \<longleftrightarrow> v = VNumber n"
  "canon v = VString s \<longleftrightarrow> v = VString s"
  by (cases v; simp)+

lemma canon_shape:
  "canon v = VMap m \<Longrightarrow> \<exists>m'. v = VMap m'"
  "canon v = VSlice xs \<Longrightarrow> \<exists>xs'. v = VSlice xs'"
  by (cases v; simp)+

lemma compareAny_refines: "compareAny x y \<longleftrightarrow> deep_equal (canon x) (canon y)"
proof (induction x y rule: compareAny.induct)
  case (1 x y)
  let ?x' = "trans_GetAtt x" and ?y' = "trans_GetAtt y"
  let ?cx = "canon_entries x" and ?cy = "canon_entries y"
  have ih: "compareAny vx vy \<longleftrightarrow> deep_equal (canon vx) (canon vy)"
    if "map_of ?x' k = Some vx" "map_of ?y' k = Some vy" for k vx vy
  proof -
    from that(1) have "k \<in> set (map fst ?x')"
      by (metis map_of_None_keys option.distinct(1))
    then show ?thesis using "1.IH" [of k vx vy] that by simp
  qed
  have entry: "(case map_of ?x' k of None \<Rightarrow> False
                | Some vx \<Rightarrow> (case map_of ?y' k of None \<Rightarrow> False | Some vy \<Rightarrow> compareAny vx vy))
             = (case map_of ?cx k of None \<Rightarrow> False
                | Some va \<Rightarrow> (case map_of ?cy k of None \<Rightarrow> False | Some vb \<Rightarrow> deep_equal va vb))" for k
    by (auto simp: map_of_canon_entries ih split: option.splits)
  have "compareAny (VMap x) (VMap y)
          \<longleftrightarrow> (\<forall>k \<in> set (map fst x) \<union> set (map fst y).
                 case map_of ?cx k of None \<Rightarrow> False
                 | Some va \<Rightarrow> (case map_of ?cy k of None \<Rightarrow> False | Some vb \<Rightarrow> deep_equal va vb))"
    by (simp add: list_all_iff keys_trans_GetAtt entry del: map_of_eq_None_iff)
  also have "\<dots> \<longleftrightarrow> (set (map fst x) = set (map fst y)
                 \<and> (\<forall>k \<in> set (map fst x).
                 case map_of ?cx k of None \<Rightarrow> False
                 | Some va \<Rightarrow> (case map_of ?cy k of None \<Rightarrow> False | Some vb \<Rightarrow> deep_equal va vb)))"
    (is "?lhs \<longleftrightarrow> ?rhs")
  proof
    assume l: ?lhs
    have "k \<in> set (map fst x) \<longleftrightarrow> k \<in> set (map fst y)" if "k \<in> set (map fst x) \<union> set (map fst y)" for k
    proof -
      from l that have "map_of ?cx k \<noteq> None \<and> map_of ?cy k \<noteq> None"
        by (auto split: option.splits)
      then show ?thesis
        using map_of_None_keys [of ?cx k] map_of_None_keys [of ?cy k]
        by (simp only: keys_canon_entries) simp
    qed
    then have "set (map fst x) = set (map fst y)" by blast
    with l show ?rhs by blast
  next
    assume ?rhs then show ?lhs by blast
  qed
  also have "\<dots> \<longleftrightarrow> deep_equal (canon (VMap x)) (canon (VMap y))"
    by (simp add: canon_VMap list_all_iff keys_canon_entries del: canon.simps(1) map_of_eq_None_iff)
  finally show ?case .
next
  case (2 xs ys)
  have ih: "compareAny (xs ! i) (ys ! i) \<longleftrightarrow> deep_equal (canon (xs ! i)) (canon (ys ! i))"
    if "i < length xs" "length xs = length ys" for i
  proof -
    from that have "(xs ! i, ys ! i) \<in> set (zip xs ys)"
      by (auto simp: in_set_zip)
    then show ?thesis using "2.IH" [of "(xs ! i, ys ! i)" "xs ! i" "ys ! i"] that by simp
  qed
  show ?case
  proof (cases "length xs = length ys")
    case True
    then have "list_all (\<lambda>(vx, vy). compareAny vx vy) (zip xs ys)
                 \<longleftrightarrow> (\<forall>i < length xs. compareAny (xs ! i) (ys ! i))"
      by (auto simp: list_all_iff in_set_zip)
    with True show ?thesis
      by (auto simp: list_all_iff ih)
  next
    case False
    then show ?thesis by simp
  qed
qed (simp_all add: canon_scalar_iff, (cases rule: canon.cases, simp_all)?)

lemma cmp_report_empty_iff:
  "go_cmp_contract L \<Longrightarrow> cmp_report L p x y = [] \<longleftrightarrow> compareAny x y"
proof (induction L p x y rule: cmp_report.induct)
  case (1 L p x y)
  have "cmp_report L (p @ [MapIndex k]) vx vy = [] \<longleftrightarrow> compareAny vx vy"
    if "map_of (trans_GetAtt x) k = Some vx" "map_of (trans_GetAtt y) k = Some vy" for k vx vy
  proof -
    from that(1) have "k \<in> set (map fst (trans_GetAtt x))"
      by (metis map_of_None_keys option.distinct(1))
    then show ?thesis using "1.IH" [of k vx vy] that "1.prems" by simp
  qed
  then show ?case
    by (auto simp: list_all_iff split: option.splits)
next
  case (2 L p xs ys)
  then show ?case by (simp add: go_cmp_contract_def del: compareAny.simps)
qed auto

lemma canon_entries_via_trans:
  "canon_entries x = map (\<lambda>(k, vx). (k, canon vx)) (trans_GetAtt x)"
  by (induction x) (auto simp: canon_entries_key trans_GetAtt_key canon_transformGetAtt)

lemma self_compare_canon: "self_compare v = canon v"
proof (induction v rule: self_compare.induct)
  case (1 x)
  have "map (\<lambda>(k, vx). (k, self_compare vx)) (trans_GetAtt x)
          = map (\<lambda>(k, vx). (k, canon vx)) (trans_GetAtt x)"
    by (rule map_cong [OF refl]) (use "1.IH" in auto)
  then show ?case
    by (simp add: canon_VMap canon_entries_via_trans del: canon.simps(1))
next
  case (2 xs)
  then show ?case by simp
qed simp_all

lemma cmp_report_prefix:
  "q \<in> set (cmp_report L p x y) \<Longrightarrow> prefix p q"
proof (induction L p x y arbitrary: q rule: cmp_report.induct)
  case (1 L p x y)
  from "1.prems" obtain k where k: "k \<in> set (map fst (trans_GetAtt x) @ map fst (trans_GetAtt y))"
    and q: "q \<in> set (case map_of (trans_GetAtt x) k of
                          None \<Rightarrow> [p @ [MapIndex k]]
                        | Some vx \<Rightarrow> (case map_of (trans_GetAtt y) k of
                                       None \<Rightarrow> [p @ [MapIndex k]]
                                     | Some vy \<Rightarrow> cmp_report L (p @ [MapIndex k]) vx vy))"
    by auto
  have "prefix (p @ [MapIndex k]) q"
  proof (cases "map_of (trans_GetAtt x) k")
    case None
    with q show ?thesis by simp
  next
    case (Some vx)
    show ?thesis
    proof (cases "map_of (trans_GetAtt y) k")
      case None
      with q Some show ?thesis by simp
    next
      case (Some vy)
      with q \<open>map_of (trans_GetAtt x) k = Some vx\<close> have "q \<in> set (cmp_report L (p @ [MapIndex k]) vx vy)"
        by simp
      moreover have "k \<in> set (remdups (map fst (trans_GetAtt x) @ map fst (trans_GetAtt y)))"
        using k by simp
      ultimately show ?thesis
        using "1.IH" [OF _ \<open>map_of (trans_GetAtt x) k = Some vx\<close> Some] by blast
    qed
  qed
  then show ?case by (meson prefix_order.order_trans prefixI)
qed (auto split: if_splits)

lemma at_path_canon_VMap:
  "at_path (canon (VMap m)) (k # ks) =
     (case map_of (trans_GetAtt m) k of None \<Rightarrow> None | Some v \<Rightarrow> at_path (canon v) ks)"
  by (simp add: canon_VMap map_of_canon_entries del: canon.simps(1) split: option.splits)

lemma at_path_not_mapping:
  "\<not> is_mapping v \<Longrightarrow> at_path (canon v) (k # ks) = None"
  by (cases v) simp_all

lemma is_mapping_canon: "is_mapping (canon v) = is_mapping v"
  by (cases v) simp_all

lemma mapping_at_canon_VMap:
  "mapping_at (canon (VMap m)) (k # ks) =
     (case map_of (trans_GetAtt m) k of None \<Rightarrow> False | Some v \<Rightarrow> mapping_at (canon v) ks)"
  by (simp add: mapping_at_def at_path_canon_VMap del: canon.simps(1) split: option.splits)

lemma disagree_at_step:
  assumes "map_of (trans_GetAtt mx) k = Some vx" "map_of (trans_GetAtt my) k = Some vy"
  shows "disagree_at (canon (VMap mx)) (canon (VMap my)) (k # ks)
           = disagree_at (canon vx) (canon vy) ks"
proof (cases ks)
  case Nil
  with assms show ?thesis
    by (simp add: disagree_at_def at_path_canon_VMap del: canon.simps(1))
next
  case (Cons k' ks')
  with assms show ?thesis
    by (simp add: disagree_at_def at_path_canon_VMap mapping_at_canon_VMap
             del: canon.simps(1) split: option.splits)
qed

lemma disagree_at_missing:
  assumes "map_of (trans_GetAtt mx) k = None \<or> map_of (trans_GetAtt my) k = None"
    and "disagree_at (canon (VMap mx)) (canon (VMap my)) (k # ks)"
  shows "ks = [] \<and> (map_of (trans_GetAtt mx) k \<noteq> None \<or> map_of (trans_GetAtt my) k \<noteq> None)"
proof (cases ks)
  case Nil
  with assms show ?thesis
    by (auto simp: disagree_at_def at_path_canon_VMap simp del: canon.simps(1) split: option.splits)
next
  case (Cons k' ks')
  with assms show ?thesis
    by (auto simp: disagree_at_def at_path_canon_VMap mapping_at_canon_VMap
             simp del: canon.simps(1) split: option.splits)
qed

lemma disagree_at_needs_mappings:
  assumes "disagree_at (canon x) (canon y) (k # ks)"
  shows "is_mapping x \<and> is_mapping y"
proof (rule ccontr)
  assume "\<not> (is_mapping x \<and> is_mapping y)"
  then consider "\<not> is_mapping x" | "\<not> is_mapping y" by blast
  then show False
  proof cases
    case 1
    then have none: "at_path (canon x) (k # ks) = None" "\<not> mapping_at (canon x) (butlast (k # ks))"
      by (cases ks; simp add: at_path_not_mapping mapping_at_def is_mapping_canon)+
    with assms show False
      by (simp add: disagree_at_def split: option.splits)
  next
    case 2
    then have none: "at_path (canon y) (k # ks) = None" "\<not> mapping_at (canon y) (butlast (k # ks))"
      by (cases ks; simp add: at_path_not_mapping mapping_at_def is_mapping_canon)+
    with assms show False
      by (simp add: disagree_at_def split: option.splits)
  qed
qed

lemma cmp_report_entry:
  assumes "k \<in> set (map fst (trans_GetAtt x)) \<union> set (map fst (trans_GetAtt y))"
    and "q \<in> set (case map_of (trans_GetAtt x) k of
                      None \<Rightarrow> [p @ [MapIndex k]]
                    | Some vx \<Rightarrow> (case map_of (trans_GetAtt y) k of
                                   None \<Rightarrow> [p @ [MapIndex k]]
                                 | Some vy \<Rightarrow> cmp_report L (p @ [MapIndex k]) vx vy))"
  shows "q \<in> set (cmp_report L p (VMap x) (VMap y))"
  using assms by auto

lemma cmp_report_complete:
  assumes contract: "go_cmp_contract L"
  shows "disagree_at (canon x) (canon y) ks
           \<Longrightarrow> \<exists>q \<in> set (cmp_report L p x y). prefix (p @ map MapIndex ks) q"
proof (induction ks arbitrary: x y p)
  case Nil
  then have "\<not> deep_equal (canon x) (canon y)"
    by (simp add: disagree_at_def)
  then have "cmp_report L p x y \<noteq> []"
    by (simp add: cmp_report_empty_iff [OF contract] compareAny_refines)
  then obtain q where "q \<in> set (cmp_report L p x y)"
    by (cases "cmp_report L p x y") auto
  then show ?case
    using cmp_report_prefix by fastforce
next
  case (Cons k ks)
  from disagree_at_needs_mappings [OF Cons.prems]
  obtain mx my where xy: "x = VMap mx" "y = VMap my"
    by (cases x; cases y) simp_all
  let ?ox = "map_of (trans_GetAtt mx) k" and ?oy = "map_of (trans_GetAtt my) k"
  show ?case
  proof (cases "?ox = None \<or> ?oy = None")
    case True
    from disagree_at_missing [OF True Cons.prems [unfolded xy]]
    have ks: "ks = []" and some: "?ox \<noteq> None \<or> ?oy \<noteq> None" by simp_all
    from some have key: "k \<in> set (map fst (trans_GetAtt mx)) \<union> set (map fst (trans_GetAtt my))"
      by (auto simp: map_of_None_keys simp del: map_of_eq_None_iff)
    have "p @ [MapIndex k] \<in> set (cmp_report L p (VMap mx) (VMap my))"
      by (rule cmp_report_entry [OF key]) (use True in \<open>auto split: option.splits\<close>)
    with ks xy show ?thesis by auto
  next
    case False
    then obtain vx vy where v: "?ox = Some vx" "?oy = Some vy" by auto
    from Cons.prems have "disagree_at (canon vx) (canon vy) ks"
      by (simp add: xy disagree_at_step [OF v] del: canon.simps(1))
    from Cons.IH [OF this, of "p @ [MapIndex k]"]
    obtain q where q: "q \<in> set (cmp_report L (p @ [MapIndex k]) vx vy)"
      "prefix ((p @ [MapIndex k]) @ map MapIndex ks) q" by blast
    from v have key: "k \<in> set (map fst (trans_GetAtt mx)) \<union> set (map fst (trans_GetAtt my))"
      by (metis UnI1 map_of_None_keys option.distinct(1))
    have "q \<in> set (cmp_report L p (VMap mx) (VMap my))"
      by (rule cmp_report_entry [OF key]) (simp add: v q(1))
    with q(2) xy show ?thesis by auto
  qed
qed

lemma cmp_Equal_refines: "cmp_Equal x y = same_modulo_GetAtt x y"
  by (simp add: cmp_Equal_def same_modulo_GetAtt_def doc_equal_def canon_doc_def
                compareAny_refines canon_VMap
           del: canon.simps(1) compareAny.simps split: option.splits)

lemma cmp_paths_empty_iff:
  "go_cmp_contract L \<Longrightarrow> cmp_paths L x y = [] \<longleftrightarrow> cmp_Equal x y"
  by (simp add: cmp_paths_def cmp_Equal_def cmp_report_empty_iff
           del: cmp_report.simps compareAny.simps split: option.splits)

lemma cmp_paths_complete:
  assumes "go_cmp_contract L" "doc_disagree_at (canon_doc x) (canon_doc y) ks"
  shows "\<exists>q \<in> set (cmp_paths L x y). prefix (map MapIndex ks) q"
proof (cases x)
  case None
  with assms(2) show ?thesis
    by (cases y) (simp_all add: doc_disagree_at_def canon_doc_def cmp_paths_def)
next
  case (Some mx)
  show ?thesis
  proof (cases y)
    case None
    with Some assms(2) show ?thesis
      by (simp add: doc_disagree_at_def canon_doc_def cmp_paths_def)
  next
    case (Some my)
    with \<open>x = Some mx\<close> assms(2) have "disagree_at (canon (VMap mx)) (canon (VMap my)) ks"
      by (simp add: doc_disagree_at_def canon_doc_def canon_VMap del: canon.simps(1))
    from cmp_report_complete [OF assms(1) this, of "[]"] Some \<open>x = Some mx\<close>
    show ?thesis by (simp add: cmp_paths_def del: cmp_report.simps)
  qed
qed

lemma after_Diff_canon: "after_Diff x = canon_doc x"
  by (cases x)
     (simp_all add: after_Diff_def canon_doc_def self_compare_canon canon_VMap
               del: self_compare.simps canon.simps(1))

section \<open>Facts about the example inputs\<close>

lemma example_cmp_contract: "go_cmp_contract example_cmp"
  by (simp add: go_cmp_contract_def example_cmp_def del: compareAny.simps)

lemma transformGetAtt_examples:
  "transformGetAtt (VString ''Bucket.Arn'' :: nat iface) = VSlice [VString ''Bucket'', VString ''Arn'']"
  "transformGetAtt (VString ''App.Outputs.Url'' :: nat iface)
     = VSlice [VString ''App'', VString ''Outputs.Url'']"
  by (simp_all add: numeral_2_eq_2 fill_parts_two)

lemma canon_example_source:
  "canon_doc example_source =
     Some [(''Out'', VMap [(''Arn'', VMap [(''Fn::GetAtt'', VSlice [VString ''Bucket'', VString ''Arn''])])]),
           (''List'', VSlice [VMap [(''Fn::GetAtt'', VSlice [VString ''App'', VString ''Outputs.Url''])]])]"
  by (simp add: canon_doc_def canon_entries_def example_source_def transformGetAtt_examples
           del: transformGetAtt.simps(1))

lemma canon_example_validate: "canon_doc (Some example_validate) = Some example_validate"
  by (simp add: canon_doc_def canon_entries_def example_validate_def)

lemma canon_example_changed: "canon_doc (Some example_changed) = Some example_changed"
  by (simp add: canon_doc_def canon_entries_def example_changed_def)

lemma example_same: "same_modulo_GetAtt example_source (Some example_validate)"
  unfolding same_modulo_GetAtt_def canon_example_source canon_example_validate
  by (auto simp add: doc_equal_def example_validate_def)

lemma example_differs: "\<not> same_modulo_GetAtt example_source (Some example_changed)"
  unfolding same_modulo_GetAtt_def canon_example_source canon_example_changed
  by (simp add: doc_equal_def example_changed_def)

lemma example_disagree:
  "doc_disagree_at (canon_doc example_source) (canon_doc (Some example_changed))
     [''Out'', ''Arn'', ''Fn::GetAtt'']"
  unfolding canon_example_source canon_example_changed
  by (simp add: doc_disagree_at_def disagree_at_def example_changed_def)

section \<open>The equivalence checker\<close>

text \<open>
  Claim C1. For every reference document and every candidate text whose parse differs
  from the reference in the spelling of attribute getters only, at whatever depth the
  getters stand (also inside sequences and nested mappings): the comparison made by
  \<open>VerifyOutput\<close> is the deep equality of the two documents after the \<open>Fn::GetAtt\<close> rewrite
  has been applied recursively to both, the diff is empty, and \<open>VerifyOutput\<close> returns no
  error.
\<close>

theorem VerifyOutput_GetAtt_spelling:
  assumes "ReadString Y output = Inr validate"
    and "same_modulo_GetAtt source validate"
  shows "cmp_Equal source validate = doc_equal (canon_doc source) (canon_doc validate)
         \<and> cmp_Diff L source validate = []
         \<and> fst (VerifyOutput Y L source output) = None"
  using assms
  by (simp add: VerifyOutput_def cmp_Diff_def cmp_Equal_refines same_modulo_GetAtt_def)

theorem VerifyOutput_GetAtt_spelling_witness:
  "same_modulo_GetAtt example_source (Some example_validate)
   \<and> cmp_Diff example_cmp example_source (Some example_validate) = []
   \<and> fst (VerifyOutput (\<lambda>s. Inr (VMap example_validate)) example_cmp example_source
             ''candidate text'') = None"
proof -
  have parsed: "ReadString (\<lambda>s. Inr (VMap example_validate)) ''candidate text''
                  = Inr (Some example_validate)"
    by (simp add: ReadString_def)
  from VerifyOutput_GetAtt_spelling [OF parsed example_same, of example_cmp] example_same
  show ?thesis by simp
qed

section \<open>The tag normalizer\<close>

text \<open>
  Claim C2 says that for every registered tag name and every attached value the
  normalizer returns a mapping with exactly one key and one value. The code does so
  for every tag and every value but one: for the tag \<open>GetAtt\<close> and the value nil,
  \<^verbatim>\<open>reflect.ValueOf(transformGetAtt(nil))\<close> is the zero \<^verbatim>\<open>Value\<close>, \<^verbatim>\<open>SetMapIndex\<close> deletes the key
  instead of storing nil under it, and the mapping returned is empty. Under every
  other tag the value nil is stored as the claim says.
\<close>

theorem UnmarshalYAMLTag_GetAtt_nil:
  "UnmarshalYAMLTag ''GetAtt'' (VNil :: 'n iface) = VMap []
   \<and> UnmarshalYAMLTag ''Ref'' (VNil :: 'n iface) = VMap [(''Ref'', VNil)]
   \<and> UnmarshalYAMLTag ''Sub'' (VNil :: 'n iface) = VMap [(''Fn::Sub'', VNil)]"
  by (simp add: UnmarshalYAMLTag_def)

text \<open>
  Everywhere else the mapping has the one entry the claim describes: the key is \<open>Fn::\<close>
  followed by the tag name, or the bare name for \<open>Ref\<close> and \<open>Condition\<close>, and the value
  is the attached value, or \<open>transformGetAtt\<close> of it for \<open>GetAtt\<close>.
\<close>

lemma transformGetAtt_VNil_iff: "transformGetAtt v = VNil \<longleftrightarrow> v = VNil"
proof (cases v)
  case (VString s)
  show ?thesis
  proof (rule transformGetAtt_VString_cases [of s])
    assume "transformGetAtt (VString s :: 'a iface) = VSlice [VString s, VNil]"
    then show ?thesis unfolding VString by simp
  next
    fix p q assume "transformGetAtt (VString s :: 'a iface) = VSlice [VString p, VString q]"
    then show ?thesis unfolding VString by simp
  qed
qed simp_all

lemma reflect_ValueOf_Valid: "v \<noteq> VNil \<Longrightarrow> reflect_ValueOf v = Valid v"
  by (cases v) simp_all

lemma UnmarshalYAMLTag_entry:
  assumes "tag \<noteq> ''GetAtt'' \<or> val \<noteq> VNil"
  shows "UnmarshalYAMLTag tag val =
           VMap [(if tag = ''Ref'' \<or> tag = ''Condition'' then tag else ''Fn::'' @ tag,
                  if tag = ''GetAtt'' then transformGetAtt val else val)]"
proof (cases "tag = ''GetAtt''")
  case True
  with assms have "transformGetAtt val \<noteq> VNil"
    by (simp add: transformGetAtt_VNil_iff)
  then have "reflect_ValueOf (transformGetAtt val) = Valid (transformGetAtt val)"
    by (rule reflect_ValueOf_Valid)
  with True show ?thesis
    by (simp add: UnmarshalYAMLTag_def del: transformGetAtt.simps)
next
  case False
  then show ?thesis
    by (auto simp: UnmarshalYAMLTag_def Let_def)
qed

lemma UnmarshalYAMLTag_examples:
  "UnmarshalYAMLTag ''GetAtt'' (VString ''MyResource.MyAttr'' :: nat iface)
     = VMap [(''Fn::GetAtt'', VSlice [VString ''MyResource'', VString ''MyAttr''])]"
  "UnmarshalYAMLTag ''Ref'' (VString ''MyResource'' :: nat iface)
     = VMap [(''Ref'', VString ''MyResource'')]"
  "UnmarshalYAMLTag ''Sub'' (VNumber (7::nat)) = VMap [(''Fn::Sub'', VNumber 7)]"
proof -
  have split: "strings_SplitN (''MyResource'' @ CHR ''.'' # ''MyAttr'') (CHR ''.'') 2
                 = [''MyResource'', ''MyAttr'']"
    by (rule strings_SplitN_2_first_sep) simp
  show "UnmarshalYAMLTag ''GetAtt'' (VString ''MyResource.MyAttr'' :: nat iface)
     = VMap [(''Fn::GetAtt'', VSlice [VString ''MyResource'', VString ''MyAttr''])]"
    using UnmarshalYAMLTag_entry [of "''GetAtt''" "VString ''MyResource.MyAttr'' :: nat iface"] split
    by (simp add: fill_parts_two)
  show "UnmarshalYAMLTag ''Ref'' (VString ''MyResource'' :: nat iface)
     = VMap [(''Ref'', VString ''MyResource'')]"
    using UnmarshalYAMLTag_entry [of "''Ref''" "VString ''MyResource'' :: nat iface"] by simp
  show "UnmarshalYAMLTag ''Sub'' (VNumber (7::nat)) = VMap [(''Fn::Sub'', VNumber 7)]"
    using UnmarshalYAMLTag_entry [of "''Sub''" "VNumber (7::nat)"] by simp
qed

section \<open>The attribute-path canonicalizer\<close>

text \<open>
  Claim C3. \<open>transformGetAtt\<close> is a function of its argument alone. On a string it
  always returns a sequence of exactly two elements; when the string contains a \<open>.\<close> the
  split is at the first one only, so later dots stay in the second element (as in
  \<open>MyResource.Outputs.Value\<close>); every value that is not a string is returned unchanged.
\<close>

theorem transformGetAtt_first_dot:
  "(\<exists>a b. transformGetAtt (VString s :: 'n iface) = VSlice [a, b])
   \<and> (\<forall>p q. s = p @ ''.'' @ q \<and> CHR ''.'' \<notin> set p
          \<longrightarrow> transformGetAtt (VString s :: 'n iface) = VSlice [VString p, VString q])
   \<and> transformGetAtt (VString ''MyResource.Outputs.Value'' :: 'n iface)
         = VSlice [VString ''MyResource'', VString ''Outputs.Value'']
   \<and> (\<forall>v :: 'n iface. (\<forall>t. v \<noteq> VString t) \<longrightarrow> transformGetAtt v = v)"
proof (intro conjI allI impI)
  show "\<exists>a b. transformGetAtt (VString s :: 'n iface) = VSlice [a, b]"
  proof (cases "CHR ''.'' \<in> set s")
    case True
    then obtain p q where "s = p @ CHR ''.'' # q" "CHR ''.'' \<notin> set p"
      by (meson split_list_first)
    then show ?thesis
      by (simp add: strings_SplitN_2_first_sep fill_parts_two)
  next
    case False
    then show ?thesis
      by (simp add: strings_SplitN_2_no_sep fill_parts_one)
  qed
next
  fix p q
  assume "s = p @ ''.'' @ q \<and> CHR ''.'' \<notin> set p"
  then show "transformGetAtt (VString s :: 'n iface) = VSlice [VString p, VString q]"
    by (simp add: strings_SplitN_2_first_sep fill_parts_two)
next
  have "strings_SplitN (''MyResource'' @ CHR ''.'' # ''Outputs.Value'') (CHR ''.'') 2
          = [''MyResource'', ''Outputs.Value'']"
    by (rule strings_SplitN_2_first_sep) simp
  then show "transformGetAtt (VString ''MyResource.Outputs.Value'' :: 'n iface)
               = VSlice [VString ''MyResource'', VString ''Outputs.Value'']"
    by (simp add: fill_parts_two)
next
  fix v :: "'n iface"
  assume "\<forall>t. v \<noteq> VString t"
  then show "transformGetAtt v = v"
    by (cases v) simp_all
qed

theorem transformGetAtt_first_dot_witness:
  "transformGetAtt (VString ''a.b.c'' :: nat iface) = VSlice [VString ''a'', VString ''b.c'']
   \<and> transformGetAtt (VSlice [VString ''a'', VString ''b''] :: nat iface)
         = VSlice [VString ''a'', VString ''b'']"
proof -
  note inst = transformGetAtt_first_dot [where s = "''a.b.c''" and 'n = nat]
  note split = inst [THEN conjunct2, THEN conjunct1, rule_format, of "''a''" "''b.c''"]
  note other = inst [THEN conjunct2, THEN conjunct2, THEN conjunct2, rule_format,
                     of "VSlice [VString ''a'', VString ''b'']"]
  have "transformGetAtt (VString ''a.b.c'' :: nat iface)
          = VSlice [VString ''a'', VString ''b.c'']"
    by (rule split) simp
  moreover have "transformGetAtt (VSlice [VString ''a'', VString ''b''] :: nat iface)
                   = VSlice [VString ''a'', VString ''b'']"
    by (rule other) simp
  ultimately show ?thesis by simp
qed

section \<open>Semantic differences\<close>

text \<open>
  Claim C4. For every reference document and every candidate whose parse is not equal to
  it up to the spelling of attribute getters (they differ in a key, a value or the order
  of a sequence), \<open>VerifyOutput\<close> returns the error
  \<open>Semantic difference after formatting:\<close> followed by the diff. The diff is not empty,
  and it is the text of a report that is not empty and has, for every path at which the
  two documents disagree, a reported leaf at or below that path. (The reporter is
  go-cmp's; the theorem holds for every reporter that keeps \<open>go_cmp_contract\<close>.)
\<close>

theorem VerifyOutput_difference:
  assumes "ReadString Y output = Inr validate"
    and "go_cmp_contract L"
    and "\<not> same_modulo_GetAtt source validate"
  shows "\<exists>paths. paths \<noteq> [] \<and> render L paths \<noteq> []
           \<and> fst (VerifyOutput Y L source output)
               = Some (''Semantic difference after formatting:'' @ [CHR 0x0A] @ render L paths)
           \<and> (\<forall>ks. doc_disagree_at (canon_doc source) (canon_doc validate) ks
                  \<longrightarrow> (\<exists>q \<in> set paths. prefix (map MapIndex ks) q))"
proof -
  let ?paths = "cmp_paths L source validate"
  from assms(3) have neq: "\<not> cmp_Equal source validate"
    by (simp add: cmp_Equal_refines)
  with assms(2) have nonempty: "?paths \<noteq> []"
    by (simp add: cmp_paths_empty_iff)
  with assms(2) have shown: "render L ?paths \<noteq> []"
    by (simp add: go_cmp_contract_def)
  from neq have "cmp_Diff L source validate = render L ?paths"
    by (simp add: cmp_Diff_def)
  with shown assms(1) have "fst (VerifyOutput Y L source output)
      = Some (''Semantic difference after formatting:'' @ [CHR 0x0A] @ render L ?paths)"
    by (simp add: VerifyOutput_def)
  moreover have "\<forall>ks. doc_disagree_at (canon_doc source) (canon_doc validate) ks
                  \<longrightarrow> (\<exists>q \<in> set ?paths. prefix (map MapIndex ks) q)"
    using cmp_paths_complete [OF assms(2)] by blast
  ultimately show ?thesis using nonempty shown by blast
qed

theorem VerifyOutput_difference_witness:
  "go_cmp_contract example_cmp
   \<and> \<not> same_modulo_GetAtt example_source (Some example_changed)
   \<and> (\<exists>paths. paths \<noteq> []
         \<and> fst (VerifyOutput (\<lambda>s. Inr (VMap example_changed)) example_cmp example_source
                  ''candidate text'')
             = Some (''Semantic difference after formatting:'' @ [CHR 0x0A]
                     @ render example_cmp paths)
         \<and> render example_cmp paths \<noteq> []
         \<and> (\<exists>q \<in> set paths.
                prefix [MapIndex ''Out'', MapIndex ''Arn'', MapIndex ''Fn::GetAtt''] q))"
proof -
  have parsed: "ReadString (\<lambda>s. Inr (VMap example_changed)) ''candidate text''
                  = Inr (Some example_changed)"
    by (simp add: ReadString_def)
  from VerifyOutput_difference [OF parsed example_cmp_contract example_differs]
  obtain paths where paths: "paths \<noteq> []" "render example_cmp paths \<noteq> []"
    "fst (VerifyOutput (\<lambda>s. Inr (VMap example_changed)) example_cmp example_source
            ''candidate text'')
       = Some (''Semantic difference after formatting:'' @ [CHR 0x0A] @ render example_cmp paths)"
    "\<forall>ks. doc_disagree_at (canon_doc example_source) (canon_doc (Some example_changed)) ks
          \<longrightarrow> (\<exists>q \<in> set paths. prefix (map MapIndex ks) q)"
    by blast
  from paths(4) example_disagree
  have "\<exists>q \<in> set paths. prefix (map MapIndex [''Out'', ''Arn'', ''Fn::GetAtt'']) q"
    by blast
  then have "\<exists>q \<in> set paths. prefix [MapIndex ''Out'', MapIndex ''Arn'', MapIndex ''Fn::GetAtt''] q"
    by simp
  with paths(1,2,3) example_cmp_contract example_differs show ?thesis
    by blast
qed

section \<open>A candidate that does not parse\<close>

text \<open>
  Claim C5. When the candidate text fails to parse, \<open>VerifyOutput\<close> returns the parse
  error (an \<open>Invalid YAML: \<close> error of \<open>ReadString\<close>) and leaves the reference document as
  it was: nothing is compared and nothing is canonicalized, whatever the comparison
  library would do.
\<close>

theorem VerifyOutput_parse_failure:
  assumes "ReadString Y output = Inl err"
  shows "VerifyOutput Y L source output = (Some err, source)
         \<and> (\<exists>cause. err = ''Invalid YAML: '' @ cause)"
proof
  from assms show "VerifyOutput Y L source output = (Some err, source)"
    by (simp add: VerifyOutput_def)
  from assms show "\<exists>cause. err = ''Invalid YAML: '' @ cause"
    unfolding ReadString_cases by blast
qed

theorem VerifyOutput_parse_failure_witness:
  "VerifyOutput (\<lambda>s. Inl ''yaml: line 1: did not find expected node content'') example_cmp
     example_source ''foo: [''
   = (Some ''Invalid YAML: yaml: line 1: did not find expected node content'', example_source)"
proof -
  have failed: "ReadString (\<lambda>s. Inl ''yaml: line 1: did not find expected node content'' :: error + nat iface)
                  ''foo: [''
                  = Inl ''Invalid YAML: yaml: line 1: did not find expected node content''"
    by (simp add: ReadString_def)
  from VerifyOutput_parse_failure [OF failed, of example_cmp example_source]
  show ?thesis by simp
qed

section \<open>The read entry points\<close>

text \<open>
  Claim C6. Every error of \<open>Read\<close>, \<open>ReadFile\<close> and \<open>ReadString\<close> is of one of two
  kinds, each the underlying cause behind a short prefix. When the stream or the file
  cannot be read, the error is the acquisition error (\<open>Unable to read input: \<close> or
  \<open>Unable to read file: \<close> followed by the cause), and for a path that does not exist
  its message contains the path. When the content is rejected, the error is
  \<open>Invalid YAML: \<close> followed by the cause; so reading \<open>foo: [\<close>, which the converter
  rejects, returns that error and no document.
\<close>

theorem read_error_kinds:
  fixes Y :: "'n converter"
  shows
  "(\<forall>cause. ioutil_ReadAll r = Inl cause \<longrightarrow> Read Y r = Inl (''Unable to read input: '' @ cause))
   \<and> (\<forall>cause. ioutil_ReadFile fs name = Inl cause
          \<longrightarrow> ReadFile Y fs name = Inl (''Unable to read file: '' @ cause))
   \<and> (fs name = Failure ''open'' ENOENT
          \<longrightarrow> (\<exists>msg. ReadFile Y fs name = Inl msg \<and> sublist name msg))
   \<and> (\<forall>cause. rejected Y input cause \<longrightarrow> ReadString Y input = Inl (''Invalid YAML: '' @ cause))
   \<and> (\<forall>data cause. ioutil_ReadAll r = Inr data \<and> rejected Y data cause
          \<longrightarrow> Read Y r = Inl (''Invalid YAML: '' @ cause))
   \<and> (\<forall>data cause. ioutil_ReadFile fs name = Inr data \<and> rejected Y data cause
          \<longrightarrow> ReadFile Y fs name = Inl (''Invalid YAML: '' @ cause))
   \<and> (\<forall>e. ReadString Y input = Inl e
          \<longrightarrow> (\<exists>cause. rejected Y input cause \<and> e = ''Invalid YAML: '' @ cause))
   \<and> (\<forall>e. Read Y r = Inl e
          \<longrightarrow> (\<exists>cause. ioutil_ReadAll r = Inl cause \<and> e = ''Unable to read input: '' @ cause)
              \<or> (\<exists>data cause. ioutil_ReadAll r = Inr data \<and> rejected Y data cause
                    \<and> e = ''Invalid YAML: '' @ cause))
   \<and> (\<forall>e. ReadFile Y fs name = Inl e
          \<longrightarrow> (\<exists>cause. ioutil_ReadFile fs name = Inl cause \<and> e = ''Unable to read file: '' @ cause)
              \<or> (\<exists>data cause. ioutil_ReadFile fs name = Inr data \<and> rejected Y data cause
                    \<and> e = ''Invalid YAML: '' @ cause))
   \<and> (\<forall>cause. Y ''foo: ['' = Inl cause
          \<longrightarrow> ReadString Y ''foo: ['' = Inl (''Invalid YAML: '' @ cause)
              \<and> (\<forall>doc. ReadString Y ''foo: ['' \<noteq> Inr doc))"
proof (intro conjI allI impI)
  fix cause assume "ioutil_ReadAll r = Inl cause"
  then show "Read Y r = Inl (''Unable to read input: '' @ cause)"
    by (simp add: Read_def)
next
  fix cause assume "ioutil_ReadFile fs name = Inl cause"
  then show "ReadFile Y fs name = Inl (''Unable to read file: '' @ cause)"
    by (simp add: ReadFile_def)
next
  assume "fs name = Failure ''open'' ENOENT"
  then have "ReadFile Y fs name
               = Inl ((''Unable to read file: '' @ ''open '') @ name @ ('': '' @ ENOENT))"
    by (simp add: ReadFile_def ioutil_ReadFile_def)
  then show "\<exists>msg. ReadFile Y fs name = Inl msg \<and> sublist name msg"
    using sublist_in_message by blast
next
  fix cause assume "rejected Y input cause"
  then show "ReadString Y input = Inl (''Invalid YAML: '' @ cause)"
    by (rule ReadString_rejected)
next
  fix data cause assume "ioutil_ReadAll r = Inr data \<and> rejected Y data cause"
  then show "Read Y r = Inl (''Invalid YAML: '' @ cause)"
    using ReadString_rejected [of Y data cause] by (simp add: Read_def)
next
  fix data cause assume "ioutil_ReadFile fs name = Inr data \<and> rejected Y data cause"
  then show "ReadFile Y fs name = Inl (''Invalid YAML: '' @ cause)"
    using ReadString_rejected [of Y data cause] by (simp add: ReadFile_def)
next
  fix e assume "ReadString Y input = Inl e"
  then show "\<exists>cause. rejected Y input cause \<and> e = ''Invalid YAML: '' @ cause"
    by (simp add: ReadString_cases)
next
  fix e assume err: "Read Y r = Inl e"
  show "(\<exists>cause. ioutil_ReadAll r = Inl cause \<and> e = ''Unable to read input: '' @ cause)
        \<or> (\<exists>data cause. ioutil_ReadAll r = Inr data \<and> rejected Y data cause
              \<and> e = ''Invalid YAML: '' @ cause)"
  proof (cases "ioutil_ReadAll r")
    case (Inl cause)
    with err show ?thesis by (auto simp: Read_def)
  next
    case (Inr data)
    with err have "ReadString Y data = Inl e" by (simp add: Read_def)
    with Inr show ?thesis by (simp add: ReadString_cases)
  qed
next
  fix e assume err: "ReadFile Y fs name = Inl e"
  show "(\<exists>cause. ioutil_ReadFile fs name = Inl cause \<and> e = ''Unable to read file: '' @ cause)
        \<or> (\<exists>data cause. ioutil_ReadFile fs name = Inr data \<and> rejected Y data cause
              \<and> e = ''Invalid YAML: '' @ cause)"
  proof (cases "ioutil_ReadFile fs name")
    case (Inl cause)
    with err show ?thesis by (auto simp: ReadFile_def)
  next
    case (Inr data)
    with err have "ReadString Y data = Inl e" by (simp add: ReadFile_def)
    with Inr show ?thesis by (simp add: ReadString_cases)
  qed
next
  fix cause assume "Y ''foo: ['' = Inl cause"
  then show "ReadString Y ''foo: ['' = Inl (''Invalid YAML: '' @ cause)"
    by (simp add: ReadString_def)
next
  fix cause doc assume "Y ''foo: ['' = Inl cause"
  then show "ReadString Y ''foo: ['' \<noteq> Inr doc"
    by (simp add: ReadString_def)
qed

theorem read_error_kinds_witness:
  "Read (\<lambda>s. if s = ''foo: ['' then Inl ''yaml: line 1: did not find expected node content''
              else Inr (VMap [] :: nat iface))
        (Data ''foo'' (ReadError ''unexpected EOF''))
     = Inl ''Unable to read input: unexpected EOF''
   \<and> (\<exists>msg. ReadFile (\<lambda>s. if s = ''foo: [''
                            then Inl ''yaml: line 1: did not find expected node content''
                            else Inr (VMap [] :: nat iface))
               (\<lambda>n. Failure ''open'' ENOENT) ''missing.yaml'' = Inl msg
            \<and> sublist ''missing.yaml'' msg)
   \<and> ReadString (\<lambda>s. if s = ''foo: [''
                      then Inl ''yaml: line 1: did not find expected node content''
                      else Inr (VMap [] :: nat iface)) ''foo: [''
       = Inl ''Invalid YAML: yaml: line 1: did not find expected node content''"
proof -
  let ?Y = "\<lambda>s. if s = ''foo: [''
                then Inl ''yaml: line 1: did not find expected node content''
                else Inr (VMap [] :: nat iface)"
  let ?fs = "\<lambda>n::string. Failure ''open'' ENOENT"
  let ?r = "Data ''foo'' (ReadError ''unexpected EOF'')"
  note kinds = read_error_kinds [of ?r ?Y ?fs "''missing.yaml''" "''foo: [''"]
  have "Read ?Y ?r = Inl (''Unable to read input: '' @ ''unexpected EOF'')"
    by (rule kinds [THEN conjunct1, rule_format]) simp
  moreover have "\<exists>msg. ReadFile ?Y ?fs ''missing.yaml'' = Inl msg \<and> sublist ''missing.yaml'' msg"
    by (rule kinds [THEN conjunct2, THEN conjunct2, THEN conjunct1, rule_format]) simp
  moreover have "ReadString ?Y ''foo: [''
                   = Inl (''Invalid YAML: '' @ ''yaml: line 1: did not find expected node content'')"
    by (rule kinds [THEN conjunct2, THEN conjunct2, THEN conjunct2, THEN conjunct1, rule_format])
       (simp add: rejected_def)
  ultimately show ?thesis by simp
qed

section \<open>The caller's document after VerifyOutput\<close>

text \<open>
  Claim C7 says that \<open>VerifyOutput\<close> canonicalizes copies only, so that the document the
  caller passed is unchanged after the call. The code makes no copy: the transformer
  writes into the caller's map. For the reference document \<open>{"Fn::GetAtt": "a.b"}\<close> and a
  candidate that parses to \<open>{"Fn::GetAtt": ["a", "b"]}\<close> the call succeeds and the
  caller's document holds \<open>["a", "b"]\<close> afterwards.
\<close>

theorem VerifyOutput_source_unchanged_counterexample:
  "snd (VerifyOutput (\<lambda>s. Inr (VMap [(''Fn::GetAtt'', VSlice [VString ''a'', VString ''b''])]))
          example_cmp (Some [(''Fn::GetAtt'', VString ''a.b'')]) ''Fn::GetAtt: [a, b]'')
     = Some [(''Fn::GetAtt'', VSlice [VString ''a'', VString ''b''])]
   \<and> snd (VerifyOutput (\<lambda>s. Inr (VMap [(''Fn::GetAtt'', VSlice [VString ''a'', VString ''b''])]))
          example_cmp (Some [(''Fn::GetAtt'', VString ''a.b'')]) ''Fn::GetAtt: [a, b]'')
     \<noteq> Some [(''Fn::GetAtt'', VString ''a.b'')]"
proof -
  have split: "transformGetAtt (VString ''a.b'' :: nat iface) = VSlice [VString ''a'', VString ''b'']"
    by (simp add: numeral_2_eq_2 fill_parts_two)
  have "snd (VerifyOutput (\<lambda>s. Inr (VMap [(''Fn::GetAtt'', VSlice [VString ''a'', VString ''b''])]))
          example_cmp (Some [(''Fn::GetAtt'', VString ''a.b'')]) ''Fn::GetAtt: [a, b]'')
     = Some [(''Fn::GetAtt'', VSlice [VString ''a'', VString ''b''])]"
    by (simp add: VerifyOutput_def ReadString_def cmp_Diff_def cmp_Equal_def after_Diff_def
                  trans_GetAtt_def split Let_def
             del: transformGetAtt.simps(1))
  then show ?thesis by simp
qed

text \<open>
  Claim C7, amended. \<open>VerifyOutput\<close> canonicalizes the caller's reference document in
  place. When the candidate fails to parse, the document is unchanged. When the call
  returns no error, the document has been replaced by its canonical form: every string
  under a key \<open>Fn::GetAtt\<close>, at any depth, by its two-element sequence. (The second part
  is for a reference document whose maps hold each key once, as Go maps do, and a
  comparison library that keeps \<open>go_cmp_contract\<close>.)
\<close>

theorem VerifyOutput_source_in_place:
  "(\<forall>err. ReadString Y output = Inl err \<longrightarrow> snd (VerifyOutput Y L source output) = source)
   \<and> (go_cmp_contract L \<and> doc_distinct_keys source \<and> fst (VerifyOutput Y L source output) = None
        \<longrightarrow> snd (VerifyOutput Y L source output) = canon_doc source)"
proof (intro conjI allI impI)
  fix err assume "ReadString Y output = Inl err"
  then show "snd (VerifyOutput Y L source output) = source"
    by (simp add: VerifyOutput_def)
next
  assume ok: "go_cmp_contract L \<and> doc_distinct_keys source
              \<and> fst (VerifyOutput Y L source output) = None"
  then obtain validate where v: "ReadString Y output = Inr validate"
    by (cases "ReadString Y output") (simp_all add: VerifyOutput_def)
  have "after_Diff source = canon_doc source"
    by (rule after_Diff_canon)
  with v show "snd (VerifyOutput Y L source output) = canon_doc source"
    by (simp add: VerifyOutput_def Let_def)
qed

theorem VerifyOutput_source_in_place_witness:
  "go_cmp_contract example_cmp \<and> doc_distinct_keys example_source
   \<and> fst (VerifyOutput (\<lambda>s. Inr (VMap example_validate)) example_cmp example_source
            ''candidate text'') = None
   \<and> snd (VerifyOutput (\<lambda>s. Inr (VMap example_validate)) example_cmp example_source
            ''candidate text'')
       = Some [(''Out'', VMap [(''Arn'', VMap [(''Fn::GetAtt'',
                                   VSlice [VString ''Bucket'', VString ''Arn''])])]),
               (''List'', VSlice [VMap [(''Fn::GetAtt'',
                                   VSlice [VString ''App'', VString ''Outputs.Url''])]])]
   \<and> snd (VerifyOutput (\<lambda>s. Inl ''yaml: line 1: did not find expected node content'')
            example_cmp example_source ''foo: ['') = example_source"
proof -
  let ?Y = "\<lambda>s::string. Inr (VMap example_validate) :: error + nat iface"
  let ?F = "\<lambda>s::string. Inl ''yaml: line 1: did not find expected node content'' :: error + nat iface"
  have parsed: "ReadString ?Y ''candidate text'' = Inr (Some example_validate)"
    by (simp add: ReadString_def)
  have failed: "ReadString ?F ''foo: [''
                  = Inl ''Invalid YAML: yaml: line 1: did not find expected node content''"
    by (simp add: ReadString_def)
  have distinct: "doc_distinct_keys example_source"
    by (simp add: doc_distinct_keys_def example_source_def)
  have ok: "fst (VerifyOutput ?Y example_cmp example_source ''candidate text'') = None"
    using example_same parsed
    by (simp add: VerifyOutput_def cmp_Diff_def cmp_Equal_refines)
  note inplace = VerifyOutput_source_in_place [of ?Y "''candidate text''" example_cmp example_source]
  note untouched = VerifyOutput_source_in_place [of ?F "''foo: [''" example_cmp example_source]
  have "snd (VerifyOutput ?Y example_cmp example_source ''candidate text'')
          = canon_doc example_source"
    by (rule inplace [THEN conjunct2, rule_format]) (simp add: example_cmp_contract distinct ok)
  moreover have "snd (VerifyOutput ?F example_cmp example_source ''foo: ['') = example_source"
    by (rule untouched [THEN conjunct1, rule_format]) (rule failed)
  ultimately show ?thesis
    using example_cmp_contract distinct ok by (simp add: canon_example_source)
qed

section \<open>Reading through one routine\<close>

text \<open>
  Claim C8. Once the bytes of the stream or of the file have been acquired, \<open>Read\<close> and
  \<open>ReadFile\<close> return exactly what \<open>ReadString\<close> returns on those bytes, document or
  error.
\<close>

theorem Read_ReadFile_funnel:
  fixes Y :: "'n converter"
  shows
  "(\<forall>data. ioutil_ReadAll r = Inr data \<longrightarrow> Read Y r = ReadString Y data)
   \<and> (\<forall>data. ioutil_ReadFile fs name = Inr data \<longrightarrow> ReadFile Y fs name = ReadString Y data)"
  by (simp add: Read_def ReadFile_def)

theorem Read_ReadFile_funnel_witness:
  "ioutil_ReadAll (Data ''a: '' (Data ''1'' EOF)) = Inr ''a: 1''
   \<and> Read (\<lambda>s. Inr (VMap [(''a'', VNumber (1::nat))])) (Data ''a: '' (Data ''1'' EOF))
       = ReadString (\<lambda>s. Inr (VMap [(''a'', VNumber (1::nat))])) ''a: 1''
   \<and> ReadFile (\<lambda>s. Inr (VMap [(''a'', VNumber (1::nat))])) (\<lambda>n. Contents ''a: 1'') ''t.yaml''
       = ReadString (\<lambda>s. Inr (VMap [(''a'', VNumber (1::nat))])) ''a: 1''"
proof -
  let ?Y = "\<lambda>s::string. Inr (VMap [(''a'', VNumber (1::nat))]) :: error + nat iface"
  let ?r = "Data ''a: '' (Data ''1'' EOF)"
  let ?fs = "\<lambda>n::string. Contents ''a: 1''"
  note funnel = Read_ReadFile_funnel [of ?r ?Y ?fs "''t.yaml''"]
  have acquired: "ioutil_ReadAll ?r = Inr ''a: 1''"
    by simp
  have "Read ?Y ?r = ReadString ?Y ''a: 1''"
    by (rule funnel [THEN conjunct1, rule_format]) (rule acquired)
  moreover have "ReadFile ?Y ?fs ''t.yaml'' = ReadString ?Y ''a: 1''"
    by (rule funnel [THEN conjunct2, rule_format]) (simp add: ioutil_ReadFile_def)
  ultimately show ?thesis using acquired by simp
qed

section \<open>A missing second segment\<close>

text \<open>
  Claim C9. For a string without any \<open>.\<close> the result is the two-element sequence whose
  first element is the whole string and whose second element is nil; it is not the
  empty string.
\<close>

theorem transformGetAtt_no_dot:
  "CHR ''.'' \<notin> set s \<Longrightarrow>
     transformGetAtt (VString s) = VSlice [VString s, VNil]
     \<and> transformGetAtt (VString s) \<noteq> VSlice [VString s, VString []]"
  by (simp add: strings_SplitN_2_no_sep fill_parts_one)

theorem transformGetAtt_no_dot_witness:
  "CHR ''.'' \<notin> set ''MyResource''
   \<and> transformGetAtt (VString ''MyResource'' :: nat iface) = VSlice [VString ''MyResource'', VNil]
   \<and> transformGetAtt (VString ''MyResource'' :: nat iface)
         \<noteq> VSlice [VString ''MyResource'', VString []]"
proof -
  have nodot: "CHR ''.'' \<notin> set ''MyResource''" by simp
  from transformGetAtt_no_dot [OF nodot, where 'a = nat] nodot show ?thesis by simp
qed

section \<open>Empty input\<close>

text \<open>
  Claim C10. When the converter turns the input into JSON \<open>null\<close>, \<open>ReadString\<close> returns
  the nil document and no error. So, for a converter that turns the empty text into
  \<open>null\<close>, \<open>Read\<close> on a stream without data and \<open>ReadFile\<close> on an empty file return the
  nil document and no error as well.
\<close>

theorem ReadString_null_document:
  fixes Y :: "'n converter"
  shows
  "(Y input = Inr VNil \<longrightarrow> ReadString Y input = Inr None)
   \<and> (Y [] = Inr VNil \<longrightarrow>
        ReadString Y [] = Inr None
        \<and> (\<forall>r. ioutil_ReadAll r = Inr [] \<longrightarrow> Read Y r = Inr None)
        \<and> (\<forall>fs name. fs name = Contents [] \<longrightarrow> ReadFile Y fs name = Inr None))"
  by (simp add: ReadString_def Read_def ReadFile_def ioutil_ReadFile_def)

theorem ReadString_null_document_witness:
  "ReadString (\<lambda>s. if s = [] then Inr (VNil :: nat iface) else Inl ''unsupported'') [] = Inr None
   \<and> Read (\<lambda>s. if s = [] then Inr (VNil :: nat iface) else Inl ''unsupported'') EOF = Inr None
   \<and> ReadFile (\<lambda>s. if s = [] then Inr (VNil :: nat iface) else Inl ''unsupported'')
        (\<lambda>n. Contents []) ''empty.yaml'' = Inr None"
proof -
  let ?Y = "\<lambda>s::string. if s = [] then Inr (VNil :: nat iface) else Inl ''unsupported''"
  have null: "?Y [] = Inr VNil" by simp
  note empty = ReadString_null_document [of ?Y "[]", THEN conjunct2, rule_format, OF null]
  have "ReadString ?Y [] = Inr None"
    by (rule empty [THEN conjunct1])
  moreover have "Read ?Y EOF = Inr None"
    by (rule empty [THEN conjunct2, THEN conjunct1, rule_format]) simp
  moreover have "ReadFile ?Y (\<lambda>n. Contents []) ''empty.yaml'' = Inr None"
    by (rule empty [THEN conjunct2, THEN conjunct2, rule_format]) simp
  ultimately show ?thesis by simp
qed

end
